theory Spec2Isabelle
  imports Main "HOL-Library.Sublist"
begin

section \<open>The Fibonacci script (happy/fibonacci.py)\<close>

text \<open>
  Python integers are unbounded, so a term of the series is an \<open>int\<close>. Reading a list
  by index raises \<open>IndexError\<close> out of range, and \<open>input\<close> raises \<open>EOFError\<close>
  at the end of the input; both are values of \<open>py_error\<close>. \<open>py_index xs i\<close> is
  \<open>xs[i]\<close>, where a negative \<open>i\<close> down to \<open>-len(xs)\<close> counts from the end.
\<close>

datatype py_error = IndexError | EOFError

definition py_index :: "'a list \<Rightarrow> int \<Rightarrow> py_error + 'a" where
  "py_index xs i =
     (if 0 \<le> i \<and> i < int (length xs) then Inr (xs ! nat i)
      else if i < 0 \<and> - int (length xs) \<le> i then Inr (xs ! nat (int (length xs) + i))
      else Inl IndexError)"

text \<open>
  The body of \<open>for i in range(2, n)\<close>, run over the values of \<open>i\<close> in order:
  \<open>next_num = fib_series[i-1] + fib_series[i-2]\<close>, then \<open>fib_series.append(next_num)\<close>.
\<close>

fun fib_loop :: "int list \<Rightarrow> int list \<Rightarrow> py_error + int list" where
  "fib_loop [] fib_series = Inr fib_series"
| "fib_loop (i # is) fib_series =
     (case py_index fib_series (i - 1) of
        Inl e \<Rightarrow> Inl e
      | Inr a \<Rightarrow>
          (case py_index fib_series (i - 2) of
             Inl e \<Rightarrow> Inl e
           | Inr b \<Rightarrow> fib_loop is (fib_series @ [a + b])))"

definition fibonacci :: "int \<Rightarrow> py_error + int list" where
  "fibonacci n =
     (if n \<le> 0 then Inr []
      else if n = 1 then Inr [0]
      else if n = 2 then Inr [0, 1]
      else fib_loop [2..n - 1] [0, 1])"

text \<open>
  \<open>main\<close> writes to the console and reads one line. What it writes is a list of
  \<open>output\<close>s: \<open>Print s\<close> for \<open>print\<close> of a fixed text, \<open>Prompt s\<close> for the prompt of
  \<open>input\<close>, \<open>PrintFirst n\<close> for the line \<open>First {n} Fibonacci numbers:\<close> (after an empty
  line) and \<open>PrintSeries result\<close> for \<open>print(result)\<close>. The console input is \<open>None\<close> at
  the end of the input, where \<open>input\<close> raises \<open>EOFError\<close>. The built-in \<open>int\<close> is the
  parameter \<open>int_of\<close>: \<open>None\<close> where \<open>int\<close> raises \<open>ValueError\<close>. \<open>main\<close> returns, or
  ends with an exception that nothing catches.
\<close>

datatype "output" = Print string | Prompt string | PrintFirst int | PrintSeries "int list"

datatype ending = Returned | Uncaught py_error

definition banner :: "output list" where
  "banner =
     [Print ''Fibonacci Series Generator'',
      Print (replicate 30 (CHR ''='')),
      Prompt ''Enter the number of Fibonacci numbers to generate: '']"

definition main :: "(string \<Rightarrow> int option) \<Rightarrow> string option \<Rightarrow> output list \<times> ending" where
  "main int_of console_input =
     (case console_input of
        None \<Rightarrow> (banner, Uncaught EOFError)
      | Some line \<Rightarrow>
          (case int_of line of
             None \<Rightarrow> (banner @ [Print ''Please enter a valid integer.''], Returned)
           | Some n \<Rightarrow>
               if n < 0 then (banner @ [Print ''Please enter a non-negative number.''], Returned)
               else
                 (case fibonacci n of
                    Inl e \<Rightarrow> (banner, Uncaught e)
                  | Inr result \<Rightarrow> (banner @ [PrintFirst n, PrintSeries result], Returned))))"

section \<open>The codemod scripts (add_json_imports.py, update_tool_registry_mocks.py)\<close>

text \<open>
  A text is a \<open>string\<close>, one \<open>char\<close> for each character (code points below 256). The
  file system maps a path to a file: the characters it holds (\<open>data\<close>), whether it may be
  opened for reading and for writing, and whether its bytes decode to characters.

  The scripts open their files in text mode. \<open>f.read()\<close> gives the characters of the
  file with every line end, CR LF or a CR alone, turned into LF: this is
  \<open>universal_newlines\<close>, so the text a script works on is not the file's characters
  where the file holds a CR. \<open>f.write\<close> puts the text as it is, LF being the line end of
  the platform (as on Linux). \<open>open\<close> raises \<open>FileNotFoundError\<close> for a missing path and
  \<open>PermissionError\<close> for a file that may not be opened, and \<open>f.read\<close> raises
  \<open>UnicodeDecodeError\<close> for bytes that do not decode. Opening for writing creates a
  missing file.

  Two limits of this model: a path is a key of the map, there are no directories (so
  \<open>open\<close> never raises \<open>NotADirectoryError\<close>); and a write is one step, which fails at
  \<open>open\<close>, before the file is touched, or replaces the whole text (a \<open>f.write\<close> that
  fails after \<open>open\<close> has emptied the file has no counterpart here).
\<close>

type_synonym path = string

datatype io_error = FileNotFoundError | PermissionError | UnicodeDecodeError

record disk_file =
  data :: string
  readable :: bool
  writable :: bool
  decodable :: bool

type_synonym fs = "path \<rightharpoonup> disk_file"

fun universal_newlines :: "string \<Rightarrow> string" where
  "universal_newlines [] = []"
| "universal_newlines [c] = (if c = CHR 0x0D then [CHR ''\<newline>''] else [c])"
| "universal_newlines (c # d # cs) =
     (if c = CHR 0x0D
      then (if d = CHR ''\<newline>'' then CHR ''\<newline>'' # universal_newlines cs
            else CHR ''\<newline>'' # universal_newlines (d # cs))
      else c # universal_newlines (d # cs))"

definition on_disk :: "fs \<Rightarrow> path \<Rightarrow> string option" where
  "on_disk disk filepath = map_option data (disk filepath)"

definition read_file :: "fs \<Rightarrow> path \<Rightarrow> io_error + string" where
  "read_file disk filepath =
     (case disk filepath of
        None \<Rightarrow> Inl FileNotFoundError
      | Some f \<Rightarrow>
          if \<not> readable f then Inl PermissionError
          else if \<not> decodable f then Inl UnicodeDecodeError
          else Inr (universal_newlines (data f)))"

definition write_file :: "fs \<Rightarrow> path \<Rightarrow> string \<Rightarrow> io_error + fs" where
  "write_file disk filepath new_content =
     (case disk filepath of
        None \<Rightarrow>
          Inr (disk(filepath \<mapsto>
                 \<lparr>data = new_content, readable = True, writable = True, decodable = True\<rparr>))
      | Some f \<Rightarrow>
          if writable f then Inr (disk(filepath \<mapsto> f\<lparr>data := new_content, decodable := True\<rparr>))
          else Inl PermissionError)"

text \<open>The lines the scripts print, one constructor for each \<open>print\<close> of the two loops.\<close>

datatype console =
    AddedImport path          \<comment> \<open>\<open>Added json import to {filepath}\<close>\<close>
  | SkippedImport path        \<comment> \<open>\<open>- Skipped {filepath} (no json! macro or already imported)\<close>\<close>
  | NoUseStatements path      \<comment> \<open>\<open>Could not find use statements in {filepath}\<close>\<close>
  | ErrorProcessing path io_error  \<comment> \<open>\<open>Error processing {filepath}: {e}\<close>\<close>
  | Updated path              \<comment> \<open>\<open>Updated {filepath}\<close>\<close>
  | SkippedNoChange path      \<comment> \<open>\<open>- Skipped {filepath} (no changes needed)\<close>\<close>
  | FileNotFound path         \<comment> \<open>\<open>File not found: {filepath}\<close>\<close>

definition files :: "path list" where
  "files =
     [''hypr-claw-app/src/commands/run.rs'',
      ''hypr-claw-app/tests/session_persistence_test.rs'',
      ''hypr-claw-runtime/src/runtime_controller.rs'',
      ''hypr-claw-runtime/tests/stress_test.rs'',
      ''hypr-claw-runtime/tests/integration_runtime.rs'',
      ''hypr-claw-runtime/tests/failure_simulation.rs'',
      ''hypr-claw-runtime/tests/test_production_hardening.rs'',
      ''hypr-claw-runtime/tests/lock_permit_safety.rs'',
      ''hypr-claw-runtime/tests/failure_scenarios.rs'',
      ''hypr-claw-runtime/tests/startup_integrity.rs'']"

text \<open>\<open>sub in s\<close> on Python strings: \<open>sub\<close> occurs in \<open>s\<close> as a contiguous piece.\<close>

fun contains :: "string \<Rightarrow> string \<Rightarrow> bool" where
  "contains sub [] = (sub = [])"
| "contains sub (c # cs) = (prefix sub (c # cs) \<or> contains sub cs)"

subsection \<open>add_json_imports.py\<close>

text \<open>
  \<open>use_match s\<close> is the regular expression \<open>(use [^;]+;)\n\<close> tried at the start of
  \<open>s\<close>, with the length of the match. After the literal \<open>use\<close> and a blank, the greedy
  \<open>[^;]+\<close> runs to the first semicolon (it cannot step over one, and giving characters
  back leaves a character that is no semicolon), so the match exists when that run is
  not empty and the semicolon is followed by a newline.
\<close>

definition use_match :: "string \<Rightarrow> nat option" where
  "use_match s =
     (if prefix ''use '' s then
        (let rest = drop 4 s;
             body = takeWhile (\<lambda>c. c \<noteq> CHR '';'') rest;
             after = dropWhile (\<lambda>c. c \<noteq> CHR '';'') rest
         in if body \<noteq> [] \<and> prefix '';\<newline>'' after then Some (4 + length body + 2) else None)
      else None)"

text \<open>
  \<open>re.finditer\<close>: the spans \<open>(start, end)\<close> of the matches found scanning from the left,
  each search starting where the match before it ended. \<open>pos\<close> is the offset of \<open>s\<close> in
  the whole text.
\<close>

function finditer :: "nat \<Rightarrow> string \<Rightarrow> (nat \<times> nat) list" where
  "finditer pos [] = []"
| "finditer pos (c # cs) =
     (case use_match (c # cs) of
        Some n \<Rightarrow> (pos, pos + n) # finditer (pos + n) (drop n (c # cs))
      | None \<Rightarrow> finditer (pos + 1) cs)"
  by pat_completeness auto
termination
  by (relation "measure (\<lambda>(pos, s). length s)")
     (auto simp: use_match_def Let_def split: if_splits)

text \<open>
  One turn of the loop. \<open>try_add\<close> is the body of the \<open>try\<close>: an exception that
  \<open>open\<close>, \<open>f.read\<close> or \<open>f.write\<close> raises is the result \<open>Inl\<close>; otherwise it gives the
  file system after the turn and the line printed. \<open>process_add\<close> adds the handler
  \<open>except Exception as e\<close>, which prints the error and goes on.
\<close>

definition try_add :: "fs \<Rightarrow> path \<Rightarrow> io_error + fs \<times> console" where
  "try_add disk filepath =
     (case read_file disk filepath of
        Inl e \<Rightarrow> Inl e
      | Inr content \<Rightarrow>
          if contains ''use serde_json::json;'' content \<or> \<not> contains ''serde_json::json!'' content
          then Inr (disk, SkippedImport filepath)
          else
            (case finditer 0 content of
               [] \<Rightarrow> Inr (disk, NoUseStatements filepath)
             | m # ms \<Rightarrow>
                 (let insert_pos = snd (last (m # ms));
                      new_content = take insert_pos content @ ''use serde_json::json;\<newline>'' @
                                    drop insert_pos content
                  in case write_file disk filepath new_content of
                       Inl e \<Rightarrow> Inl e
                     | Inr disk' \<Rightarrow> Inr (disk', AddedImport filepath))))"

definition process_add :: "fs \<Rightarrow> path \<Rightarrow> fs \<times> console" where
  "process_add disk filepath =
     (case try_add disk filepath of
        Inl e \<Rightarrow> (disk, ErrorProcessing filepath e)
      | Inr outcome \<Rightarrow> outcome)"

fun run_add :: "fs \<Rightarrow> path list \<Rightarrow> fs \<times> console list" where
  "run_add disk [] = (disk, [])"
| "run_add disk (filepath # rest) =
     (case process_add disk filepath of
        (disk1, line) \<Rightarrow> (case run_add disk1 rest of (disk2, lines) \<Rightarrow> (disk2, line # lines)))"

definition add_json_imports :: "fs \<Rightarrow> fs \<times> console list" where
  "add_json_imports disk = run_add disk files"

subsection \<open>update_tool_registry_mocks.py\<close>

definition TOOL_SCHEMA_METHOD :: string where
  \<open>TOOL_SCHEMA_METHOD =
     ''\<newline>'' @
     ''        fn get_tool_schemas(&self, _agent_id: &str) -> Vec<serde_json::Value> {\<newline>'' @
     ''            vec![\<newline>'' @
     ''                json!({\<newline>'' @
     ''                    "type": "function",\<newline>'' @
     ''                    "function": {\<newline>'' @
     ''                        "name": "echo",\<newline>'' @
     ''                        "description": "Echo a message",\<newline>'' @
     ''                        "parameters": {\<newline>'' @
     ''                            "type": "object",\<newline>'' @
     ''                            "properties": {\<newline>'' @
     ''                                "message": {"type": "string"}\<newline>'' @
     ''                            },\<newline>'' @
     ''                            "required": ["message"]\<newline>'' @
     ''                        }\<newline>'' @
     ''                    }\<newline>'' @
     ''                })\<newline>'' @
     ''            ]\<newline>'' @
     ''        }''\<close>

text \<open>
  \<open>\s\<close> in a pattern on \<open>str\<close>: the characters Python counts as white space, here those
  below 256 (tab to carriage return, the four separators 28 to 31, the blank, NEL and
  the no-break space).
\<close>

definition is_space :: "char \<Rightarrow> bool" where
  "is_space c =
     (let n = (of_char c :: nat)
      in (9 \<le> n \<and> n \<le> 13) \<or> (28 \<le> n \<and> n \<le> 32) \<or> n = 133 \<or> n = 160)"

text \<open>
  \<open>tools_match s\<close> is the pattern
  \<open>(fn get_active_tools\(&self[^}]+\})\s*\n(\s*)\}\<close> tried at the start of \<open>s\<close>; it gives
  group 1, group 2 and the text after the match. \<open>method_head\<close> is the literal the
  pattern begins with. The greedy \<open>[^}]+\<close> runs to the first
  closing brace and must not be empty. Then comes the run of white space after that
  brace: \<open>\s*\n(\s*)\}\<close> matches when the run holds a newline and a closing brace
  follows the run; the first \<open>\s*\<close>, being greedy, stops at the last newline of the run,
  so group 2 is what the run holds after its last newline.
\<close>

definition method_head :: string where
  "method_head = ''fn get_active_tools(&self''"

definition tools_match :: "string \<Rightarrow> (string \<times> string \<times> string) option" where
  "tools_match s =
     (if prefix method_head s then
        (let rest = drop (length method_head) s;
             body = takeWhile (\<lambda>c. c \<noteq> CHR ''}'') rest;
             after = dropWhile (\<lambda>c. c \<noteq> CHR ''}'') rest
         in if body = [] \<or> after = [] then None
            else
              (let ws = takeWhile is_space (tl after);
                   tail = dropWhile is_space (tl after)
               in if CHR ''\<newline>'' \<in> set ws \<and> tail \<noteq> [] \<and> hd tail = CHR ''}''
                  then Some (method_head @ body @ ''}'',
                             rev (takeWhile (\<lambda>c. c \<noteq> CHR ''\<newline>'') (rev ws)),
                             tl tail)
                  else None))
      else None)"

definition replacer :: "string \<Rightarrow> string \<Rightarrow> string" where
  "replacer method indent = method @ ''\<newline>'' @ TOOL_SCHEMA_METHOD @ ''\<newline>'' @ indent @ ''}''"

lemma tools_match_shorter:
  assumes "tools_match s = Some (method, indent, rest)"
  shows "length rest < length s"
proof -
  let ?r = "drop (length method_head) s"
  let ?after = "dropWhile (\<lambda>c. c \<noteq> CHR ''}'') ?r"
  let ?tail = "dropWhile is_space (tl ?after)"
  from assms have "?after \<noteq> []" "?tail \<noteq> []"
    and rest: "rest = tl ?tail"
    by (auto simp: tools_match_def Let_def split: if_splits)
  have "length rest < length ?tail" using rest \<open>?tail \<noteq> []\<close> by (cases ?tail) auto
  also have "\<dots> \<le> length (tl ?after)" by (rule length_dropWhile_le)
  also have "\<dots> \<le> length ?after" by simp
  also have "\<dots> \<le> length ?r" by (rule length_dropWhile_le)
  also have "\<dots> \<le> length s" by simp
  finally show ?thesis .
qed

text \<open>
  \<open>re.sub(pattern, replacer, content)\<close>: every match found scanning from the left is
  replaced by what \<open>replacer\<close> returns for it, the scan going on after the match; a
  character where no match starts is copied.
\<close>

function re_sub :: "string \<Rightarrow> string" where
  "re_sub [] = []"
| "re_sub (c # cs) =
     (case tools_match (c # cs) of
        Some (method, indent, rest) \<Rightarrow> replacer method indent @ re_sub rest
      | None \<Rightarrow> c # re_sub cs)"
  by pat_completeness auto
termination
  by (relation "measure length") (auto dest: tools_match_shorter)

text \<open>
  One turn of the loop: \<open>try_update\<close> is the body of the \<open>try\<close>, \<open>report_update\<close> the
  two handlers (\<open>except FileNotFoundError\<close>, then \<open>except Exception as e\<close>).
\<close>

definition try_update :: "fs \<Rightarrow> path \<Rightarrow> io_error + fs \<times> console" where
  "try_update disk filepath =
     (case read_file disk filepath of
        Inl e \<Rightarrow> Inl e
      | Inr content \<Rightarrow>
          (let new_content = re_sub content
           in if new_content \<noteq> content
              then (case write_file disk filepath new_content of
                      Inl e \<Rightarrow> Inl e
                    | Inr disk' \<Rightarrow> Inr (disk', Updated filepath))
              else Inr (disk, SkippedNoChange filepath)))"

definition report_update :: "path \<Rightarrow> io_error \<Rightarrow> console" where
  "report_update filepath e =
     (case e of FileNotFoundError \<Rightarrow> FileNotFound filepath | _ \<Rightarrow> ErrorProcessing filepath e)"

definition process_update :: "fs \<Rightarrow> path \<Rightarrow> fs \<times> console" where
  "process_update disk filepath =
     (case try_update disk filepath of
        Inl e \<Rightarrow> (disk, report_update filepath e)
      | Inr outcome \<Rightarrow> outcome)"

fun run_update :: "fs \<Rightarrow> path list \<Rightarrow> fs \<times> console list" where
  "run_update disk [] = (disk, [])"
| "run_update disk (filepath # rest) =
     (case process_update disk filepath of
        (disk1, line) \<Rightarrow> (case run_update disk1 rest of (disk2, lines) \<Rightarrow> (disk2, line # lines)))"

definition update_tool_registry_mocks :: "fs \<Rightarrow> fs \<times> console list" where
  "update_tool_registry_mocks disk = run_update disk files"

section \<open>Notions used in the proofs, and example inputs\<close>

text \<open>
  \<open>closes z\<close>: the text \<open>z\<close> after the closing brace of a method is white space that holds
  a newline, and then a closing brace; \<open>indent_of z\<close> is that white space after its last
  newline. \<open>lit_free p\<close> is a test that no occurrence of \<open>method_head\<close> starts inside \<open>p\<close>,
  whatever follows \<open>p\<close>: each \<open>f\<close> of \<open>p\<close> has seven characters of \<open>p\<close> after it, and the
  eight are not the first eight of \<open>method_head\<close>.
\<close>

definition closes :: "string \<Rightarrow> bool" where
  "closes z = (CHR ''\<newline>'' \<in> set (takeWhile is_space z) \<and> dropWhile is_space z \<noteq> [] \<and>
               hd (dropWhile is_space z) = CHR ''}'')"

definition indent_of :: "string \<Rightarrow> string" where
  "indent_of z = rev (takeWhile (\<lambda>c. c \<noteq> CHR ''\<newline>'') (rev (takeWhile is_space z)))"

fun lit_free :: "string \<Rightarrow> bool" where
  "lit_free [] = True"
| "lit_free (c # cs) =
     ((c \<noteq> CHR ''f'' \<or> (7 \<le> length cs \<and> take 8 (c # cs) \<noteq> ''fn get_a'')) \<and> lit_free cs)"

text \<open>
  Example texts: a mock whose \<open>get_active_tools\<close> is followed by the closing brace of its
  block; that site after, and before, a copy of the method to inject; a source that has
  the import already; a source that uses the macro and has no import, and the same with
  the import inserted; \<open>crlf_source\<close> is that source with the line end CR LF.
  \<open>disk_with c\<close> is a file system with the one file \<open>a.rs\<close>,
  readable and writable, of text \<open>c\<close>; in \<open>locked_disk c\<close> the file may not be written.
\<close>

definition mock_site :: string where
  "mock_site = ''fn get_active_tools(&self) {}\<newline>}''"

definition method_then_site :: string where
  "method_then_site = TOOL_SCHEMA_METHOD @ ''\<newline>'' @ mock_site"

definition site_then_method :: string where
  "site_then_method = mock_site @ TOOL_SCHEMA_METHOD"

definition imported_source :: string where
  "imported_source = ''use serde_json::json;\<newline>fn f() { serde_json::json!(1) }''"

definition plain_source :: string where
  "plain_source = ''use a::b;\<newline>fn f() { serde_json::json!(1) }''"

definition plain_imported :: string where
  "plain_imported = ''use a::b;\<newline>use serde_json::json;\<newline>fn f() { serde_json::json!(1) }''"

definition crlf_source :: string where
  "crlf_source = ''use a::b;'' @ [CHR 0x0D, CHR ''\<newline>''] @ ''fn f() { serde_json::json!(1) }''"

definition disk_with :: "string \<Rightarrow> fs" where
  "disk_with c = [''a.rs'' \<mapsto> \<lparr>data = c, readable = True, writable = True, decodable = True\<rparr>]"

definition locked_disk :: "string \<Rightarrow> fs" where
  "locked_disk c = [''a.rs'' \<mapsto> \<lparr>data = c, readable = True, writable = False, decodable = True\<rparr>]"

section \<open>Properties of the Fibonacci generator\<close>

lemma fib_loop_append:
  "fib_loop (xs @ ys) s = (case fib_loop xs s of Inl e \<Rightarrow> Inl e | Inr t \<Rightarrow> fib_loop ys t)"
  by (induction xs arbitrary: s) (auto split: sum.splits)

lemma fib_loop_step:
  assumes "2 \<le> k" and "int (length s) = k"
  shows "fib_loop [k] s = Inr (s @ [s ! nat (k - 1) + s ! nat (k - 2)])"
  using assms by (simp add: py_index_def)

text \<open>
  The loop invariant: entering the iteration for \<open>i = k\<close> the list has \<open>k\<close> elements,
  so both reads are in range; the loop over \<open>k, ..., m\<close> extends the list to \<open>m + 1\<close>
  elements, never fails, and every element it appends is the sum of the two before it.
\<close>

lemma fib_loop_spec:
  assumes "2 \<le> k" and "int (length s) = k" and "k \<le> m + 1"
  shows "\<exists>u. fib_loop [k..m] s = Inr u \<and> prefix s u \<and> int (length u) = m + 1 \<and>
           (\<forall>j. length s \<le> j \<and> j < length u \<longrightarrow> u ! j = u ! (j - 1) + u ! (j - 2))"
  using assms
proof (induction "nat (m + 1 - k)" arbitrary: m)
  case 0
  then have "[k..m] = []" by simp
  then show ?case using 0 by simp
next
  case (Suc d)
  then have km: "k \<le> m" by linarith
  have d: "d = nat ((m - 1) + 1 - k)" using Suc.hyps(2) by linarith
  have "k \<le> (m - 1) + 1" using km by simp
  from Suc.hyps(1)[OF d Suc.prems(1) Suc.prems(2) this]
  obtain u where u: "fib_loop [k..m - 1] s = Inr u"
    and pre: "prefix s u"
    and lu: "int (length u) = m"
    and rec: "\<forall>j. length s \<le> j \<and> j < length u \<longrightarrow> u ! j = u ! (j - 1) + u ! (j - 2)"
    by auto
  have m2: "2 \<le> m" using km Suc.prems(1) by linarith
  have split: "[k..m] = [k..m - 1] @ [m]" using km by (simp add: upto_rec2)
  define x where "x = u ! nat (m - 1) + u ! nat (m - 2)"
  have run: "fib_loop [k..m] s = Inr (u @ [x])"
    unfolding split fib_loop_append u x_def using fib_loop_step[OF m2 lu] by simp
  have len: "length u = nat m" using lu by linarith
  have "(u @ [x]) ! j = (u @ [x]) ! (j - 1) + (u @ [x]) ! (j - 2)"
    if j: "length s \<le> j \<and> j < length (u @ [x])" for j
  proof (cases "j < length u")
    case True
    then have "u ! j = u ! (j - 1) + u ! (j - 2)" using rec j by blast
    moreover have "j - 1 < length u" "j - 2 < length u" using True by linarith+
    ultimately show ?thesis using True by (simp add: nth_append)
  next
    case False
    then have je: "j = length u" using j by simp
    have a: "nat (m - 1) = j - 1" "nat (m - 2) = j - 2" using je len m2 by linarith+
    have "j - 1 < length u" "j - 2 < length u" using je len m2 by linarith+
    then show ?thesis using je a by (simp add: nth_append x_def)
  qed
  moreover have "int (length (u @ [x])) = m + 1" using lu by simp
  moreover have "prefix s (u @ [x])" by (rule prefix_prefix[OF pre])
  ultimately show ?case using run by blast
qed

lemma fibonacci_loop_case:
  assumes "3 \<le> n"
  shows "\<exists>u. fibonacci n = Inr u \<and> fib_loop [2..n - 1] [0, 1] = Inr u \<and> prefix [0, 1] u \<and>
           int (length u) = n \<and>
           (\<forall>j. 2 \<le> j \<and> j < length u \<longrightarrow> u ! j = u ! (j - 1) + u ! (j - 2))"
proof -
  have "\<exists>u. fib_loop [2..n - 1] [0, 1] = Inr u \<and> prefix [0, 1] u \<and>
           int (length u) = (n - 1) + 1 \<and>
           (\<forall>j. length [0, 1 :: int] \<le> j \<and> j < length u \<longrightarrow> u ! j = u ! (j - 1) + u ! (j - 2))"
    by (rule fib_loop_spec) (use assms in simp_all)
  moreover have "fibonacci n = fib_loop [2..n - 1] [0, 1]"
    using assms by (simp add: fibonacci_def)
  ultimately show ?thesis by auto
qed

text \<open>
  C1. For every integer \<open>n \<ge> 0\<close>, \<open>fibonacci(n)\<close> returns (it raises nothing) a list of
  length exactly \<open>n\<close> whose \<open>i\<close>-th element, for every \<open>i\<close> with \<open>2 \<le> i < n\<close>, is the sum of
  the \<open>(i-1)\<close>-th and the \<open>(i-2)\<close>-th elements.
\<close>

theorem fibonacci_length_and_recurrence:
  assumes "0 \<le> n"
  shows "\<exists>xs. fibonacci n = Inr xs \<and> int (length xs) = n \<and>
           (\<forall>i. 2 \<le> i \<and> int i < n \<longrightarrow> xs ! i = xs ! (i - 1) + xs ! (i - 2))"
proof (cases "3 \<le> n")
  case True
  from fibonacci_loop_case[OF True] obtain u where u: "fibonacci n = Inr u"
    "int (length u) = n" "\<forall>j. 2 \<le> j \<and> j < length u \<longrightarrow> u ! j = u ! (j - 1) + u ! (j - 2)"
    by blast
  have "u ! i = u ! (i - 1) + u ! (i - 2)" if "2 \<le> i \<and> int i < n" for i
  proof -
    have "i < length u" using that u(2) by linarith
    then show ?thesis using u(3) that by blast
  qed
  then show ?thesis using u(1,2) by blast
next
  case False
  then consider "n = 0" | "n = 1" | "n = 2" using assms by linarith
  then show ?thesis by cases (simp_all add: fibonacci_def)
qed

theorem fibonacci_length_and_recurrence_witness:
  "(0::int) \<le> 7 \<and> fibonacci 7 = Inr [0, 1, 1, 2, 3, 5, 8] \<and>
   (\<exists>xs. fibonacci 7 = Inr xs \<and> int (length xs) = 7 \<and> xs ! 6 = xs ! 5 + xs ! 4)"
proof -
  have run: "fibonacci 7 = Inr [0, 1, 1, 2, 3, 5, 8]" by code_simp
  obtain xs where xs: "fibonacci 7 = Inr xs" "int (length xs) = 7"
    "\<forall>i. 2 \<le> i \<and> int i < 7 \<longrightarrow> xs ! i = xs ! (i - 1) + xs ! (i - 2)"
    using fibonacci_length_and_recurrence[of 7] by auto
  have "xs ! 6 = xs ! (6 - 1) + xs ! (6 - 2)" using xs(3) by (simp del: One_nat_def)
  then have "xs ! 6 = xs ! 5 + xs ! 4" by simp
  then show ?thesis using run xs(1,2) by simp
qed

text \<open>
  C2. \<open>fibonacci(0)\<close> returns the empty list, \<open>fibonacci(1)\<close> returns \<open>[0]\<close>,
  \<open>fibonacci(2)\<close> returns \<open>[0, 1]\<close> and \<open>fibonacci(5)\<close> returns \<open>[0, 1, 1, 2, 3]\<close>.
\<close>

theorem fibonacci_examples:
  "fibonacci 0 = Inr [] \<and> fibonacci 1 = Inr [0] \<and> fibonacci 2 = Inr [0, 1] \<and>
   fibonacci 5 = Inr [0, 1, 1, 2, 3]"
  by code_simp

text \<open>
  C8. For every integer \<open>n < 0\<close>, \<open>fibonacci(n)\<close> returns the empty list, the result for
  \<open>n = 0\<close>, and raises no error.
\<close>

theorem fibonacci_negative:
  assumes "n < 0"
  shows "fibonacci n = Inr [] \<and> fibonacci n = fibonacci 0"
  using assms by (simp add: fibonacci_def)

theorem fibonacci_negative_witness:
  "(-4::int) < 0 \<and> fibonacci (-4) = Inr [] \<and> fibonacci (-4) = fibonacci 0"
  using fibonacci_negative[of "-4"] by (simp add: fibonacci_def)

text \<open>
  C9. For every integer \<open>n \<ge> 0\<close>, \<open>fibonacci(n)\<close> is a prefix of \<open>fibonacci(n+1)\<close>: both
  calls return, and the longer list starts with the shorter one.
\<close>

theorem fibonacci_prefix:
  assumes "0 \<le> n"
  shows "\<exists>xs ys. fibonacci n = Inr xs \<and> fibonacci (n + 1) = Inr ys \<and> prefix xs ys"
proof (cases "3 \<le> n")
  case True
  from fibonacci_loop_case[OF True] obtain u where u: "fibonacci n = Inr u"
    "fib_loop [2..n - 1] [0, 1] = Inr u" "int (length u) = n"
    by blast
  have split: "[2..n + 1 - 1] = [2..n - 1] @ [n]" using True by (simp add: upto_rec2)
  have "fibonacci (n + 1) = fib_loop [2..n + 1 - 1] [0, 1]"
    using True by (simp add: fibonacci_def)
  also have "\<dots> = fib_loop [n] u" unfolding split fib_loop_append u(2) by simp
  also have "\<dots> = Inr (u @ [u ! nat (n - 1) + u ! nat (n - 2)])"
    by (rule fib_loop_step) (use True u(3) in simp_all)
  finally show ?thesis using u(1) by (simp add: prefix_def)
next
  case False
  then consider "n = 0" | "n = 1" | "n = 2" using assms by linarith
  then show ?thesis
  proof cases
    case 3
    have "fibonacci 3 = Inr [0, 1, 1]" by code_simp
    then show ?thesis using 3 by (simp add: fibonacci_def)
  qed (simp_all add: fibonacci_def)
qed

theorem fibonacci_prefix_witness:
  "(0::int) \<le> 5 \<and> fibonacci 5 = Inr [0, 1, 1, 2, 3] \<and> fibonacci (5 + 1) = Inr [0, 1, 1, 2, 3, 5] \<and>
   (\<exists>xs ys. fibonacci 5 = Inr xs \<and> fibonacci (5 + 1) = Inr ys \<and> prefix xs ys)"
proof -
  have "fibonacci 5 = Inr [0, 1, 1, 2, 3]" "fibonacci (5 + 1) = Inr [0, 1, 1, 2, 3, 5]"
    by code_simp+
  then show ?thesis using fibonacci_prefix[of 5] by simp
qed

text \<open>
  C6. For every console input that \<open>int\<close> does not parse, and for every input that it
  parses as a negative integer, \<open>main\<close> prints a message that rejects the input
  (\<open>Please enter a valid integer.\<close>, or \<open>Please enter a non-negative number.\<close>) after
  the banner, prints no series, and returns.
\<close>

theorem main_rejects_bad_input:
  assumes "int_of line = None \<or> (\<exists>n. int_of line = Some n \<and> n < 0)"
  shows "\<exists>msg. main int_of (Some line) = (banner @ [Print msg], Returned) \<and>
           msg = (if int_of line = None then ''Please enter a valid integer.''
                  else ''Please enter a non-negative number.'') \<and>
           (\<forall>xs. PrintSeries xs \<notin> set (fst (main int_of (Some line))))"
  using assms by (auto simp: main_def banner_def)

theorem main_rejects_bad_input_witness:
  "(\<lambda>s. if s = ''-3'' then Some (-3 :: int) else None) ''abc'' = None \<and>
   main (\<lambda>s. if s = ''-3'' then Some (-3) else None) (Some ''abc'') =
     (banner @ [Print ''Please enter a valid integer.''], Returned) \<and>
   main (\<lambda>s. if s = ''-3'' then Some (-3) else None) (Some ''-3'') =
     (banner @ [Print ''Please enter a non-negative number.''], Returned)"
  using main_rejects_bad_input[of "\<lambda>s. if s = ''-3'' then Some (-3) else None" "''abc''"]
        main_rejects_bad_input[of "\<lambda>s. if s = ''-3'' then Some (-3) else None" "''-3''"]
  by simp

section \<open>Searching a text\<close>

lemma contains_append_left: "contains sub s \<Longrightarrow> contains sub (a @ s)"
  by (induction a) auto

lemma contains_prefix: "prefix sub s \<Longrightarrow> contains sub s"
  by (cases s) auto

lemma contains_middle: "contains sub (a @ sub @ b)"
  by (rule contains_append_left) (simp add: contains_prefix)

lemma contains_iff: "contains sub s \<longleftrightarrow> (\<exists>a b. s = a @ sub @ b)"
proof
  show "contains sub s \<Longrightarrow> \<exists>a b. s = a @ sub @ b"
  proof (induction s)
    case Nil
    then show ?case by simp
  next
    case (Cons c cs)
    show ?case
    proof (cases "prefix sub (c # cs)")
      case True
      then obtain b where "c # cs = sub @ b" by (auto simp: prefix_def)
      then have "c # cs = [] @ sub @ b" by simp
      then show ?thesis by blast
    next
      case False
      with Cons obtain a b where "cs = a @ sub @ b" by auto
      then have "c # cs = (c # a) @ sub @ b" by simp
      then show ?thesis by blast
    qed
  qed
qed (auto simp: contains_middle)

lemma use_match_pos: "use_match s = Some n \<Longrightarrow> 6 \<le> n \<and> n \<le> length s"
proof -
  assume a: "use_match s = Some n"
  let ?r = "drop 4 s"
  let ?b = "takeWhile (\<lambda>c. c \<noteq> CHR '';'') ?r"
  let ?a = "dropWhile (\<lambda>c. c \<noteq> CHR '';'') ?r"
  from a have p: "prefix ''use '' s" and b: "?b \<noteq> []" and pa: "prefix '';\<newline>'' ?a"
    and n: "n = 4 + length ?b + 2"
    by (auto simp: use_match_def Let_def split: if_splits)
  have "length ?b + length ?a = length ?r"
    by (metis length_append takeWhile_dropWhile_id)
  moreover have "2 \<le> length ?a" using pa by (auto simp: prefix_def)
  moreover have "4 \<le> length s" using p by (auto simp: prefix_def)
  ultimately show ?thesis using n b by (cases ?b) auto
qed

text \<open>Every span of \<open>finditer\<close> is a match of the pattern, inside the text.\<close>

lemma finditer_spans:
  "(a, b) \<in> set (finditer pos s) \<Longrightarrow>
     pos \<le> a \<and> a < b \<and> b \<le> pos + length s \<and> use_match (drop (a - pos) s) = Some (b - a)"
proof (induction pos s rule: finditer.induct)
  case (1 pos)
  then show ?case by simp
next
  case (2 pos c cs)
  show ?case
  proof (cases "use_match (c # cs)")
    case None
    with 2 have "(a, b) \<in> set (finditer (pos + 1) cs)" by simp
    from "2.IH"(1)[OF None this] have h: "pos + 1 \<le> a" "a < b" "b \<le> pos + 1 + length cs"
      "use_match (drop (a - (pos + 1)) cs) = Some (b - a)" by auto
    have "a - pos = Suc (a - (pos + 1))" using h(1) by linarith
    then show ?thesis using h by simp
  next
    case (Some n)
    note n = use_match_pos[OF Some]
    from 2 Some consider "(a, b) = (pos, pos + n)" | "(a, b) \<in> set (finditer (pos + n) (drop n (c # cs)))"
      by auto
    then show ?thesis
    proof cases
      case 1
      then show ?thesis using Some n by auto
    next
      case 2
      from "2.IH"(2)[OF Some 2] have h: "pos + n \<le> a" "a < b" "b \<le> pos + n + length (drop n (c # cs))"
        "use_match (drop (a - (pos + n)) (drop n (c # cs))) = Some (b - a)" by auto
      have "drop (a - (pos + n)) (drop n (c # cs)) = drop (a - pos) (c # cs)"
        using h(1) by (simp add: add.commute)
      then show ?thesis using h n by auto
    qed
  qed
qed

lemma finditer_Nil:
  "finditer pos s = [] \<Longrightarrow> use_match (drop j s) = None"
proof (induction pos s arbitrary: j rule: finditer.induct)
  case (1 pos)
  then show ?case by (simp add: use_match_def)
next
  case (2 pos c cs)
  then have None: "use_match (c # cs) = None" by (cases "use_match (c # cs)") auto
  with 2 have "finditer (pos + 1) cs = []" by simp
  from "2.IH"(1)[OF None this] have "use_match (drop j' cs) = None" for j' .
  then show ?case using None by (cases j) auto
qed

lemma finditer_last_end:
  assumes "finditer pos s \<noteq> []"
  shows "pos < snd (last (finditer pos s))"
proof -
  have "last (finditer pos s) \<in> set (finditer pos s)" using assms by simp
  then have "(fst (last (finditer pos s)), snd (last (finditer pos s))) \<in> set (finditer pos s)"
    by simp
  from finditer_spans[OF this] show ?thesis by linarith
qed

text \<open>No match of the pattern starts at or after the end of the last span.\<close>

lemma finditer_last:
  assumes "finditer pos s \<noteq> []" and "snd (last (finditer pos s)) \<le> k"
  shows "use_match (drop (k - pos) s) = None"
  using assms
proof (induction pos s rule: finditer.induct)
  case (1 pos)
  then show ?case by simp
next
  case (2 pos c cs)
  show ?case
  proof (cases "use_match (c # cs)")
    case None
    with 2 have ne: "finditer (pos + 1) cs \<noteq> []" and k: "snd (last (finditer (pos + 1) cs)) \<le> k"
      by auto
    from "2.IH"(1)[OF None ne k] have "use_match (drop (k - (pos + 1)) cs) = None" .
    moreover have "pos + 1 < k" using finditer_last_end[OF ne] k by linarith
    moreover from this have "k - pos = Suc (k - (pos + 1))" by linarith
    ultimately show ?thesis by simp
  next
    case (Some n)
    note n = use_match_pos[OF Some]
    have eq: "drop (k - (pos + n)) (drop n (c # cs)) = drop (k - pos) (c # cs)" if "pos + n \<le> k"
      using that by (simp add: add.commute)
    show ?thesis
    proof (cases "finditer (pos + n) (drop n (c # cs)) = []")
      case True
      with 2 Some have k: "pos + n \<le> k" by simp
      from finditer_Nil[OF True] have "use_match (drop (k - (pos + n)) (drop n (c # cs))) = None" .
      then show ?thesis using eq[OF k] by simp
    next
      case False
      with 2 Some have l: "snd (last (finditer (pos + n) (drop n (c # cs)))) \<le> k" by simp
      from "2.IH"(2)[OF Some False this] have "use_match (drop (k - (pos + n)) (drop n (c # cs))) = None" .
      moreover have "pos + n \<le> k" using finditer_last_end[OF False] l by linarith
      ultimately show ?thesis using eq by simp
    qed
  qed
qed

section \<open>The file system and one turn of each loop\<close>

text \<open>The text read holds no CR; a text without CR is read as it is.\<close>

lemma universal_newlines_no_cr: "CHR 0x0D \<notin> set (universal_newlines s)"
  by (induction s rule: universal_newlines.induct) auto

lemma universal_newlines_id: "CHR 0x0D \<notin> set s \<Longrightarrow> universal_newlines s = s"
  by (induction s rule: universal_newlines.induct) auto

lemma read_file_no_cr: "read_file disk p = Inr c \<Longrightarrow> CHR 0x0D \<notin> set c"
  by (auto simp: read_file_def universal_newlines_no_cr split: option.splits if_splits)

lemma write_file_on_disk: "write_file disk p s = Inr disk' \<Longrightarrow> on_disk disk' p = Some s"
  by (auto simp: write_file_def on_disk_def split: option.splits if_splits)

lemma read_file_on_disk:
  assumes "read_file disk p = Inr c" and "on_disk disk p = Some raw" and "CHR 0x0D \<notin> set raw"
  shows "c = raw"
  using assms
  by (auto simp: read_file_def on_disk_def universal_newlines_id split: option.splits if_splits)

lemma write_file_read:
  assumes "write_file disk p s = Inr disk'" and "read_file disk p = Inr c" and "CHR 0x0D \<notin> set s"
  shows "read_file disk' p = Inr s"
  using assms
  by (auto simp: write_file_def read_file_def universal_newlines_id split: option.splits if_splits)

lemma inserted_no_cr:
  assumes "CHR 0x0D \<notin> set c"
  shows "CHR 0x0D \<notin> set (take b c @ ''use serde_json::json;\<newline>'' @ drop b c)"
  using assms by (auto dest: in_set_takeD in_set_dropD)

lemma write_file_other:
  assumes "write_file disk p s = Inr disk'" and "q \<noteq> p"
  shows "disk' q = disk q"
  using assms by (auto simp: write_file_def split: option.splits if_splits)

text \<open>What the body of each loop does, case by case.\<close>

lemma try_add_cases:
  "try_add disk p =
     (case read_file disk p of
        Inl e \<Rightarrow> Inl e
      | Inr c \<Rightarrow>
          if contains ''use serde_json::json;'' c \<or> \<not> contains ''serde_json::json!'' c
          then Inr (disk, SkippedImport p)
          else if finditer 0 c = [] then Inr (disk, NoUseStatements p)
          else (case write_file disk p
                       (take (snd (last (finditer 0 c))) c @ ''use serde_json::json;\<newline>'' @
                        drop (snd (last (finditer 0 c))) c) of
                  Inl e \<Rightarrow> Inl e
                | Inr disk' \<Rightarrow> Inr (disk', AddedImport p)))"
  by (simp add: try_add_def Let_def split: sum.splits list.splits)

lemma try_update_cases:
  "try_update disk p =
     (case read_file disk p of
        Inl e \<Rightarrow> Inl e
      | Inr c \<Rightarrow>
          if re_sub c = c then Inr (disk, SkippedNoChange p)
          else (case write_file disk p (re_sub c) of
                  Inl e \<Rightarrow> Inl e
                | Inr disk' \<Rightarrow> Inr (disk', Updated p)))"
  by (simp add: try_update_def Let_def split: sum.splits)

lemma process_add_changes:
  assumes "fst (process_add disk p) \<noteq> disk"
  shows "\<exists>c. read_file disk p = Inr c \<and> contains ''serde_json::json!'' c \<and>
           \<not> contains ''use serde_json::json;'' c \<and> finditer 0 c \<noteq> []"
  using assms by (auto simp: process_add_def try_add_cases split: sum.splits if_splits)

lemma process_update_changes:
  assumes "fst (process_update disk p) \<noteq> disk"
  shows "\<exists>c. read_file disk p = Inr c \<and> re_sub c \<noteq> c"
  using assms by (auto simp: process_update_def try_update_cases split: sum.splits if_splits)

lemma process_add_frame: "q \<noteq> p \<Longrightarrow> fst (process_add disk p) q = disk q"
  by (auto simp: process_add_def try_add_cases split: sum.splits dest: write_file_other)

lemma process_update_frame: "q \<noteq> p \<Longrightarrow> fst (process_update disk p) q = disk q"
  by (auto simp: process_update_def try_update_cases split: sum.splits dest: write_file_other)

lemma process_add_skips_imported:
  assumes "read_file disk p = Inr c" and "contains ''use serde_json::json;'' c"
  shows "process_add disk p = (disk, SkippedImport p)"
  using assms by (simp add: process_add_def try_add_cases)



lemma write_file_changes:
  assumes "write_file disk p s = Inr disk'" and "read_file disk p = Inr c" and "s \<noteq> c"
    and "CHR 0x0D \<notin> set s"
  shows "disk' \<noteq> disk"
proof
  assume "disk' = disk"
  then have "read_file disk p = Inr s" using write_file_read[OF assms(1,2,4)] by simp
  then show False using assms(2,3) by simp
qed

lemma process_add_added:
  assumes "snd (process_add disk p) = AddedImport p"
  shows "fst (process_add disk p) \<noteq> disk"
proof -
  from assms obtain c where c: "read_file disk p = Inr c"
    by (cases "read_file disk p") (auto simp: process_add_def try_add_cases)
  let ?b = "snd (last (finditer 0 c))"
  let ?new = "take ?b c @ ''use serde_json::json;\<newline>'' @ drop ?b c"
  from assms c obtain disk' where d: "write_file disk p ?new = Inr disk'" "fst (process_add disk p) = disk'"
    by (auto simp: process_add_def try_add_cases split: if_splits sum.splits)
  have "length ?new \<noteq> length c" by simp
  then have "?new \<noteq> c" by metis
  from write_file_changes[OF d(1) c this inserted_no_cr[OF read_file_no_cr[OF c]]]
  show ?thesis using d(2) by simp
qed

lemma run_add_Cons:
  "run_add disk (p # ps) =
     (fst (run_add (fst (process_add disk p)) ps),
      snd (process_add disk p) # snd (run_add (fst (process_add disk p)) ps))"
  by (simp split: prod.splits)

lemma run_update_Cons:
  "run_update disk (p # ps) =
     (fst (run_update (fst (process_update disk p)) ps),
      snd (process_update disk p) # snd (run_update (fst (process_update disk p)) ps))"
  by (simp split: prod.splits)

lemma run_add_append:
  "run_add disk (ps @ qs) =
     (fst (run_add (fst (run_add disk ps)) qs), snd (run_add disk ps) @ snd (run_add (fst (run_add disk ps)) qs))"
  by (induction ps arbitrary: disk) (auto split: prod.splits)

lemma run_update_append:
  "run_update disk (ps @ qs) =
     (fst (run_update (fst (run_update disk ps)) qs),
      snd (run_update disk ps) @ snd (run_update (fst (run_update disk ps)) qs))"
  by (induction ps arbitrary: disk) (auto split: prod.splits)

lemma length_run_add: "length (snd (run_add disk ps)) = length ps"
proof (induction ps arbitrary: disk)
  case Nil
  then show ?case by simp
next
  case (Cons a ps)
  show ?case using Cons[of "fst (process_add disk a)"]
    by (simp add: run_add_Cons del: run_add.simps)
qed

lemma length_run_update: "length (snd (run_update disk ps)) = length ps"
proof (induction ps arbitrary: disk)
  case Nil
  then show ?case by simp
next
  case (Cons a ps)
  show ?case using Cons[of "fst (process_update disk a)"]
    by (simp add: run_update_Cons del: run_update.simps)
qed

lemma run_add_failure:
  assumes "run_add disk before = (disk1, lines1)" and "try_add disk1 p = Inl e"
  shows "run_add disk (before @ p # rest) =
           (fst (run_add disk1 rest), lines1 @ ErrorProcessing p e # snd (run_add disk1 rest))"
  using assms by (simp add: run_add_append process_add_def split: prod.splits)

lemma run_update_failure:
  assumes "run_update disk before = (disk1, lines1)" and "try_update disk1 p = Inl e"
  shows "run_update disk (before @ p # rest) =
           (fst (run_update disk1 rest), lines1 @ report_update p e # snd (run_update disk1 rest))"
  using assms by (simp add: run_update_append process_update_def split: prod.splits)

lemma try_add_read_fails: "read_file disk p = Inl e \<Longrightarrow> try_add disk p = Inl e"
  by (simp add: try_add_cases)

lemma try_update_read_fails: "read_file disk p = Inl e \<Longrightarrow> try_update disk p = Inl e"
  by (simp add: try_update_cases)

lemma try_add_write_fails:
  assumes "read_file disk p = Inr c"
    and "\<not> contains ''use serde_json::json;'' c" and "contains ''serde_json::json!'' c"
    and "finditer 0 c \<noteq> []"
    and "write_file disk p (take (snd (last (finditer 0 c))) c @ ''use serde_json::json;\<newline>'' @
                            drop (snd (last (finditer 0 c))) c) = Inl e"
  shows "try_add disk p = Inl e"
  using assms by (simp add: try_add_cases)

lemma try_update_write_fails:
  assumes "read_file disk p = Inr c" and "re_sub c \<noteq> c" and "write_file disk p (re_sub c) = Inl e"
  shows "try_update disk p = Inl e"
  using assms by (simp add: try_update_cases)

text \<open>The example file systems, evaluated.\<close>

lemma no_cr_examples [simp]:
  "CHR 0x0D \<notin> set plain_source" "CHR 0x0D \<notin> set plain_imported"
  "CHR 0x0D \<notin> set imported_source" "CHR 0x0D \<notin> set mock_site"
  by (simp_all add: plain_source_def plain_imported_def imported_source_def mock_site_def)

lemma read_disk_with: "CHR 0x0D \<notin> set c \<Longrightarrow> read_file (disk_with c) ''a.rs'' = Inr c"
  by (simp add: disk_with_def read_file_def universal_newlines_id)

lemma on_disk_with: "on_disk (disk_with c) ''a.rs'' = Some c"
  by (simp add: disk_with_def on_disk_def)

lemma read_crlf: "read_file (disk_with crlf_source) ''a.rs'' = Inr plain_source"
  by (simp add: disk_with_def read_file_def crlf_source_def plain_source_def)

lemma write_disk_with: "write_file (disk_with c) ''a.rs'' s = Inr (disk_with s)"
  by (simp add: disk_with_def write_file_def)

lemma read_locked_disk: "CHR 0x0D \<notin> set c \<Longrightarrow> read_file (locked_disk c) ''a.rs'' = Inr c"
  by (simp add: locked_disk_def read_file_def universal_newlines_id)

lemma write_locked_disk: "write_file (locked_disk c) ''a.rs'' s = Inl PermissionError"
  by (simp add: locked_disk_def write_file_def)

lemma disk_with_eq: "disk_with a = disk_with b \<longleftrightarrow> a = b"
proof
  assume "disk_with a = disk_with b"
  then have "on_disk (disk_with a) ''a.rs'' = on_disk (disk_with b) ''a.rs''" by simp
  then show "a = b" by (simp add: on_disk_with)
qed simp

lemma missing_disk_with: "disk_with c ''missing.rs'' = None"
  by (simp add: disk_with_def)

lemma contains_imported: "contains ''use serde_json::json;'' imported_source"
  unfolding imported_source_def
  using contains_middle[of "''use serde_json::json;''" "[]" "''\<newline>fn f() { serde_json::json!(1) }''"]
  by simp

lemma finditer_plain: "finditer 0 plain_source = [(0, 10)]"
  by (simp add: plain_source_def use_match_def)

lemma contains_plain:
  "contains ''serde_json::json!'' plain_source" "\<not> contains ''use serde_json::json;'' plain_source"
  by (simp_all add: plain_source_def)

lemma process_add_plain:
  "process_add (disk_with plain_source) ''a.rs'' =
     (disk_with (''use a::b;\<newline>use serde_json::json;\<newline>fn f() { serde_json::json!(1) }''),
      AddedImport ''a.rs'')"
  by (simp add: process_add_def try_add_cases read_disk_with write_disk_with contains_plain finditer_plain)
     (simp add: plain_source_def)

lemma process_add_plain':
  "process_add (disk_with plain_source) ''a.rs'' = (disk_with plain_imported, AddedImport ''a.rs'')"
  by (simp add: process_add_plain plain_imported_def)

lemma process_add_crlf:
  "process_add (disk_with crlf_source) ''a.rs'' = (disk_with plain_imported, AddedImport ''a.rs'')"
  by (simp add: process_add_def try_add_cases read_crlf write_disk_with contains_plain finditer_plain)
     (simp add: plain_source_def plain_imported_def)

lemma contains_plain_imported: "contains ''use serde_json::json;'' plain_imported"
  unfolding plain_imported_def
  using contains_middle[of "''use serde_json::json;''" "''use a::b;\<newline>''"
      "''\<newline>fn f() { serde_json::json!(1) }''"]
  by simp

section \<open>Properties of add_json_imports.py\<close>

text \<open>
  C7 (amended). When add_json_imports rewrites a file and the write succeeds (it prints
  \<open>Added json import\<close>), the text \<open>c\<close> it read, which is the file's characters with every
  line end read as LF, had a match of the pattern; with \<open>(a, b)\<close> the span of the last
  one (a match, after whose end no match starts), the new text is \<open>c\<close> with the line
  \<open>use serde_json::json;\<close> inserted at \<open>b\<close>: the \<open>b\<close> characters before the line and all
  characters after it are those of \<open>c\<close>. The file then holds exactly the new text, so
  its line ends are LF; where the file held no CR, \<open>c\<close> is the file's characters and
  they are unchanged around the line. No other file changes.
\<close>

theorem add_json_imports_inserts_line:
  assumes "snd (process_add disk p) = AddedImport p"
  shows "\<exists>c a b. read_file disk p = Inr c \<and> finditer 0 c \<noteq> [] \<and> last (finditer 0 c) = (a, b) \<and>
           a < b \<and> b \<le> length c \<and> use_match (drop a c) = Some (b - a) \<and>
           (\<forall>k. b \<le> k \<longrightarrow> use_match (drop k c) = None) \<and>
           read_file (fst (process_add disk p)) p =
             Inr (take b c @ ''use serde_json::json;\<newline>'' @ drop b c) \<and>
           take b (take b c @ ''use serde_json::json;\<newline>'' @ drop b c) = take b c \<and>
           drop (b + length ''use serde_json::json;\<newline>'')
             (take b c @ ''use serde_json::json;\<newline>'' @ drop b c) = drop b c \<and>
           (\<forall>q. q \<noteq> p \<longrightarrow> fst (process_add disk p) q = disk q) \<and>
           on_disk (fst (process_add disk p)) p =
             Some (take b c @ ''use serde_json::json;\<newline>'' @ drop b c) \<and>
           (\<forall>raw. on_disk disk p = Some raw \<and> CHR 0x0D \<notin> set raw \<longrightarrow> c = raw)"
proof -
  from assms obtain c where c: "read_file disk p = Inr c"
    by (cases "read_file disk p") (auto simp: process_add_def try_add_cases)
  obtain a b where ab: "last (finditer 0 c) = (a, b)" by (cases "last (finditer 0 c)")
  let ?new = "take b c @ ''use serde_json::json;\<newline>'' @ drop b c"
  from assms c ab have ne: "finditer 0 c \<noteq> []"
    and w: "\<exists>disk'. write_file disk p ?new = Inr disk' \<and> process_add disk p = (disk', AddedImport p)"
    by (auto simp: process_add_def try_add_cases split: if_splits sum.splits)
  then obtain disk' where d: "write_file disk p ?new = Inr disk'" "fst (process_add disk p) = disk'"
    by auto
  have "(a, b) \<in> set (finditer 0 c)" using ne ab by (metis last_in_set)
  from finditer_spans[OF this] have sp: "a < b" "b \<le> length c" "use_match (drop a c) = Some (b - a)"
    by auto
  have lastm: "use_match (drop k c) = None" if "b \<le> k" for k
    using finditer_last[OF ne, of k] ab that by simp
  have "take b ?new = take b c" using sp(2) by simp
  moreover have "drop (b + length ''use serde_json::json;\<newline>'') ?new = drop b c"
    using sp(2) by simp
  moreover have "read_file (fst (process_add disk p)) p = Inr ?new"
    using write_file_read[OF d(1) c inserted_no_cr[OF read_file_no_cr[OF c]]] d(2) by simp
  moreover have "\<forall>q. q \<noteq> p \<longrightarrow> fst (process_add disk p) q = disk q"
    using write_file_other[OF d(1)] d(2) by simp
  moreover have "on_disk (fst (process_add disk p)) p = Some ?new"
    using write_file_on_disk[OF d(1)] d(2) by simp
  moreover have "\<forall>raw. on_disk disk p = Some raw \<and> CHR 0x0D \<notin> set raw \<longrightarrow> c = raw"
    using read_file_on_disk[OF c] by blast
  ultimately show ?thesis using c ne ab sp lastm by blast
qed

theorem add_json_imports_inserts_line_witness:
  "snd (process_add (disk_with plain_source) ''a.rs'') = AddedImport ''a.rs'' \<and>
   read_file (disk_with plain_source) ''a.rs'' = Inr ''use a::b;\<newline>fn f() { serde_json::json!(1) }'' \<and>
   last (finditer 0 plain_source) = (0, 10) \<and>
   read_file (fst (process_add (disk_with plain_source) ''a.rs'')) ''a.rs'' =
     Inr ''use a::b;\<newline>use serde_json::json;\<newline>fn f() { serde_json::json!(1) }'' \<and>
   on_disk (disk_with plain_source) ''a.rs'' = Some ''use a::b;\<newline>fn f() { serde_json::json!(1) }'' \<and>
   on_disk (fst (process_add (disk_with plain_source) ''a.rs'')) ''a.rs'' =
     Some ''use a::b;\<newline>use serde_json::json;\<newline>fn f() { serde_json::json!(1) }''"
proof -
  have h: "snd (process_add (disk_with plain_source) ''a.rs'') = AddedImport ''a.rs''"
    by (simp add: process_add_plain')
  from add_json_imports_inserts_line[OF h] obtain c a b where
    c: "read_file (disk_with plain_source) ''a.rs'' = Inr c"
    and l: "last (finditer 0 c) = (a, b)"
    and r: "read_file (fst (process_add (disk_with plain_source) ''a.rs'')) ''a.rs'' =
              Inr (take b c @ ''use serde_json::json;\<newline>'' @ drop b c)"
    and o: "on_disk (fst (process_add (disk_with plain_source) ''a.rs'')) ''a.rs'' =
              Some (take b c @ ''use serde_json::json;\<newline>'' @ drop b c)"
    and raw: "\<forall>raw. on_disk (disk_with plain_source) ''a.rs'' = Some raw \<and> CHR 0x0D \<notin> set raw \<longrightarrow> c = raw"
    by blast
  from raw have c': "c = plain_source" by (simp add: on_disk_with)
  from l have "a = 0" "b = 10" unfolding c' by (simp_all add: finditer_plain)
  then show ?thesis using h r o c'
    by (simp add: read_disk_with on_disk_with finditer_plain) (simp add: plain_source_def)
qed

text \<open>
  On a file whose line ends are CR LF the script reads LF and writes LF: the file after
  the turn is not the file before it with the line inserted, at the end of the matched
  statement or anywhere else, and its characters before the line are not those it had.
\<close>

theorem add_json_imports_rewrites_line_ends:
  "on_disk (disk_with crlf_source) ''a.rs'' =
     Some (''use a::b;'' @ [CHR 0x0D, CHR ''\<newline>''] @ ''fn f() { serde_json::json!(1) }'') \<and>
   snd (process_add (disk_with crlf_source) ''a.rs'') = AddedImport ''a.rs'' \<and>
   on_disk (fst (process_add (disk_with crlf_source) ''a.rs'')) ''a.rs'' =
     Some ''use a::b;\<newline>use serde_json::json;\<newline>fn f() { serde_json::json!(1) }'' \<and>
   ''use a::b;\<newline>use serde_json::json;\<newline>fn f() { serde_json::json!(1) }'' \<noteq>
     take 11 crlf_source @ ''use serde_json::json;\<newline>'' @ drop 11 crlf_source \<and>
   length ''use a::b;\<newline>use serde_json::json;\<newline>fn f() { serde_json::json!(1) }'' \<noteq>
     length crlf_source + length ''use serde_json::json;\<newline>'' \<and>
   take 11 ''use a::b;\<newline>use serde_json::json;\<newline>fn f() { serde_json::json!(1) }'' \<noteq>
     take 11 crlf_source"
  by (simp add: process_add_crlf on_disk_with) (simp add: crlf_source_def plain_imported_def)

section \<open>The substitution of update_tool_registry_mocks.py\<close>

lemma is_space_simps [simp]:
  "\<not> is_space (CHR ''f'')" "\<not> is_space (CHR ''}'')" "is_space (CHR ''\<newline>'')" "is_space (CHR '' '')"
  by (simp_all add: is_space_def)

lemma brace_notin_head: "CHR ''}'' \<notin> set method_head"
  by (simp add: method_head_def)

lemma head_take8: "take 8 method_head = ''fn get_a''" and head_ne: "method_head \<noteq> []"
  and hd_head: "hd method_head = CHR ''f''" and length_head: "length method_head = 25"
  by (simp_all add: method_head_def)

lemma prefix_head_brace:
  assumes "CHR ''}'' \<notin> set p"
  shows "prefix method_head (p @ CHR ''}'' # z) \<longleftrightarrow> prefix method_head p"
proof
  assume "prefix method_head (p @ CHR ''}'' # z)"
  then consider "prefix method_head p" | us where "method_head = p @ us" "prefix us (CHR ''}'' # z)"
    by (auto simp: prefix_append)
  then show "prefix method_head p"
  proof cases
    case 2
    show ?thesis
    proof (cases us)
      case Nil
      then show ?thesis using 2(1) by simp
    next
      case (Cons u us')
      then have "CHR ''}'' \<in> set (p @ us)" using 2(2) by simp
      then have "CHR ''}'' \<in> set method_head" by (simp only: 2(1))
      then show ?thesis using brace_notin_head by blast
    qed
  qed
next
  show "prefix method_head p \<Longrightarrow> prefix method_head (p @ CHR ''}'' # z)"
    by (rule prefix_prefix)
qed

text \<open>The match at the start of a text, read at its first closing brace.\<close>

lemma tools_match_brace:
  assumes "CHR ''}'' \<notin> set p"
  shows "tools_match (p @ CHR ''}'' # z) =
           (if prefix method_head p \<and> length method_head < length p \<and> closes z
            then Some (p @ ''}'', indent_of z, tl (dropWhile is_space z)) else None)"
proof (cases "prefix method_head p")
  case False
  then show ?thesis using prefix_head_brace[OF assms] by (simp add: tools_match_def)
next
  case True
  then obtain body where p: "p = method_head @ body" by (auto simp: prefix_def)
  have b: "\<forall>c\<in>set body. c \<noteq> CHR ''}''" using assms p by auto
  have pre: "prefix method_head (p @ CHR ''}'' # z)" using True by (rule prefix_prefix)
  have d: "drop (length method_head) (p @ CHR ''}'' # z) = body @ CHR ''}'' # z" using p by simp
  have t: "takeWhile (\<lambda>c. c \<noteq> CHR ''}'') (body @ CHR ''}'' # z) = body"
    using b by (simp add: takeWhile_tail)
  have dw: "dropWhile (\<lambda>c. c \<noteq> CHR ''}'') (body @ CHR ''}'' # z) = CHR ''}'' # z"
    using b by (simp add: dropWhile_append3)
  show ?thesis
    unfolding tools_match_def using pre True
    by (simp add: d t dw Let_def closes_def indent_of_def p)
qed

lemma tools_match_no_brace:
  assumes "CHR ''}'' \<notin> set s"
  shows "tools_match s = None"
proof -
  have "dropWhile (\<lambda>c. c \<noteq> CHR ''}'') (drop (length method_head) s) = []"
    using assms by (auto dest: in_set_dropD)
  then show ?thesis by (simp add: tools_match_def Let_def)
qed

lemma tools_match_prefix: "tools_match s = Some r \<Longrightarrow> prefix method_head s"
  by (simp add: tools_match_def split: if_splits)

lemma tools_match_not_f: "c \<noteq> CHR ''f'' \<Longrightarrow> tools_match (c # cs) = None"
proof (rule ccontr)
  assume c: "c \<noteq> CHR ''f''" and "tools_match (c # cs) \<noteq> None"
  then obtain r where "tools_match (c # cs) = Some r" by auto
  then have "prefix method_head (c # cs)" by (rule tools_match_prefix)
  then show False using c by (simp add: method_head_def)
qed




text \<open>A match is a text with a closing brace; its pieces.\<close>

lemma tools_match_SomeD:
  assumes "tools_match s = Some (method, indent, rest)"
  shows "\<exists>p z. s = p @ CHR ''}'' # z \<and> CHR ''}'' \<notin> set p \<and> prefix method_head p \<and> closes z \<and>
           method = p @ ''}'' \<and> indent = indent_of z \<and> rest = tl (dropWhile is_space z)"
proof -
  have "CHR ''}'' \<in> set s" using assms tools_match_no_brace by fastforce
  then obtain p z where s: "s = p @ CHR ''}'' # z" "CHR ''}'' \<notin> set p"
    by (auto dest: split_list_first)
  show ?thesis using assms tools_match_brace[OF s(2), of z] s
    by (auto split: if_splits)
qed











lemma prefix_head_take8: "prefix method_head s \<Longrightarrow> take 8 s = ''fn get_a''"
  by (auto simp: prefix_def method_head_def)

lemma re_sub_lit_free: "lit_free p \<Longrightarrow> re_sub (p @ y) = p @ re_sub y"
proof (induction p)
  case Nil
  then show ?case by simp
next
  case (Cons c cs)
  have "tools_match ((c # cs) @ y) = None"
  proof (cases "c = CHR ''f''")
    case False
    then show ?thesis by (simp add: tools_match_not_f)
  next
    case True
    with Cons.prems have l: "7 \<le> length cs" and t: "take 8 (c # cs) \<noteq> ''fn get_a''" by auto
    have "take 8 ((c # cs) @ y) = take 8 (c # cs)" using l by simp
    then have "\<not> prefix method_head ((c # cs) @ y)" using t prefix_head_take8 by metis
    then show ?thesis by (simp add: tools_match_def)
  qed
  then show ?case using Cons by simp
qed

lemma lit_free_tool: "lit_free TOOL_SCHEMA_METHOD"
  by code_simp



text \<open>The substitution brings no CR into a text: what it writes is read back as it is.\<close>

lemma tools_match_sets:
  assumes "tools_match s = Some (grp1, grp2, rest)"
  shows "set grp1 \<subseteq> set s \<and> set grp2 \<subseteq> set s \<and> set rest \<subseteq> set s"
proof -
  from tools_match_SomeD[OF assms] obtain p z where
    s: "s = p @ CHR ''}'' # z" "grp1 = p @ ''}''" "grp2 = indent_of z"
    "rest = tl (dropWhile is_space z)" by blast
  have "set (indent_of z) \<subseteq> set z"
    unfolding indent_of_def by (auto dest!: set_takeWhileD)
  moreover have "set (tl (dropWhile is_space z)) \<subseteq> set z"
    by (metis dual_order.trans list.set_sel(2) set_dropWhileD subsetI tl_Nil)
  ultimately show ?thesis using s by auto
qed

lemma no_cr_tool: "CHR 0x0D \<notin> set TOOL_SCHEMA_METHOD"
  by code_simp

lemma re_sub_no_cr: "CHR 0x0D \<notin> set s \<Longrightarrow> CHR 0x0D \<notin> set (re_sub s)"
proof (induction s rule: re_sub.induct)
  case 1
  then show ?case by simp
next
  case (2 c cs)
  show ?case
  proof (cases "tools_match (c # cs)")
    case None
    then show ?thesis using 2 by simp
  next
    case (Some r)
    obtain grp1 grp2 rest where r: "r = (grp1, grp2, rest)" by (cases r)
    have m: "tools_match (c # cs) = Some (grp1, grp2, rest)" using Some r by simp
    from tools_match_sets[OF m] "2.prems" have n: "CHR 0x0D \<notin> set grp1" "CHR 0x0D \<notin> set grp2"
      "CHR 0x0D \<notin> set rest" by blast+
    have "CHR 0x0D \<notin> set (re_sub rest)" using "2.IH"(2)[OF Some] r n(3) by simp
    moreover have "CHR 0x0D \<notin> set (replacer grp1 grp2)"
      using n(1,2) no_cr_tool by (simp add: replacer_def)
    ultimately show ?thesis using m by simp
  qed
qed


lemma process_update_updated:
  assumes "snd (process_update disk p) = Updated p"
  shows "fst (process_update disk p) \<noteq> disk"
proof -
  from assms obtain c where c: "read_file disk p = Inr c"
    by (cases "read_file disk p")
       (auto simp: process_update_def try_update_cases report_update_def split: io_error.splits)
  from assms c obtain disk' where d: "write_file disk p (re_sub c) = Inr disk'"
    "fst (process_update disk p) = disk'" and ne: "re_sub c \<noteq> c"
    by (auto simp: process_update_def try_update_cases report_update_def
             split: if_splits sum.splits io_error.splits)
  from write_file_changes[OF d(1) c ne re_sub_no_cr[OF read_file_no_cr[OF c]]]
  show ?thesis using d(2) by simp
qed


text \<open>The substitution on the example texts.\<close>

lemma re_sub_mock_site:
  "re_sub (mock_site @ y) = ''fn get_active_tools(&self) {}'' @ ''\<newline>'' @ TOOL_SCHEMA_METHOD @ ''\<newline>}'' @ re_sub y"
  by (simp add: mock_site_def tools_match_def method_head_def replacer_def)

lemma re_sub_tool: "re_sub (TOOL_SCHEMA_METHOD @ y) = TOOL_SCHEMA_METHOD @ re_sub y"
  by (rule re_sub_lit_free[OF lit_free_tool])


lemma re_sub_site_then_method:
  "re_sub site_then_method =
     ''fn get_active_tools(&self) {}\<newline>'' @ TOOL_SCHEMA_METHOD @ ''\<newline>}'' @ TOOL_SCHEMA_METHOD"
  unfolding site_then_method_def re_sub_mock_site using re_sub_tool[of "[]"] by simp

lemma re_sub_mock: "re_sub mock_site = ''fn get_active_tools(&self) {}\<newline>'' @ TOOL_SCHEMA_METHOD @ ''\<newline>}''"
  using re_sub_mock_site[of "[]"] by simp

lemma re_sub_mock_ne: "re_sub mock_site \<noteq> mock_site"
proof -
  have "length (re_sub mock_site) \<noteq> length mock_site"
    unfolding re_sub_mock by (simp add: mock_site_def)
  then show ?thesis by auto
qed

lemma re_sub_plain: "re_sub plain_source = plain_source"
proof -
  have "lit_free plain_source" by (simp add: plain_source_def)
  from re_sub_lit_free[OF this, of "[]"] show ?thesis by simp
qed

lemma no_cr_sites [simp]:
  "CHR 0x0D \<notin> set method_then_site" "CHR 0x0D \<notin> set site_then_method"
  by (simp_all add: method_then_site_def site_then_method_def no_cr_tool)

lemma process_update_disk_with:
  "CHR 0x0D \<notin> set c \<Longrightarrow>
   process_update (disk_with c) ''a.rs'' =
     (if re_sub c = c then (disk_with c, SkippedNoChange ''a.rs'') else (disk_with (re_sub c), Updated ''a.rs''))"
  by (simp add: process_update_def try_update_cases read_disk_with write_disk_with)

section \<open>Properties of both codemod scripts\<close>

text \<open>
  C10. Each codemod changes a file on disk only when its condition holds:
  add_json_imports only if the text read holds \<open>serde_json::json!\<close>, does not hold
  \<open>use serde_json::json;\<close> and has a match of the pattern; update_tool_registry_mocks only
  if the substitution changes the text. Otherwise the file system is as it was. A turn
  that prints that it wrote has changed its file, and no turn touches a file other than
  its own.
\<close>

theorem codemods_write_only_when_needed:
  "(fst (process_add disk p) \<noteq> disk \<longrightarrow>
      (\<exists>c. read_file disk p = Inr c \<and> contains ''serde_json::json!'' c \<and>
           \<not> contains ''use serde_json::json;'' c \<and> finditer 0 c \<noteq> [])) \<and>
   (fst (process_update disk p) \<noteq> disk \<longrightarrow> (\<exists>c. read_file disk p = Inr c \<and> re_sub c \<noteq> c)) \<and>
   (snd (process_add disk p) = AddedImport p \<longrightarrow> fst (process_add disk p) \<noteq> disk) \<and>
   (snd (process_update disk p) = Updated p \<longrightarrow> fst (process_update disk p) \<noteq> disk) \<and>
   (\<forall>q. q \<noteq> p \<longrightarrow> fst (process_add disk p) q = disk q \<and> fst (process_update disk p) q = disk q)"
  using process_add_changes[of disk p] process_update_changes[of disk p]
    process_add_frame[of _ p disk] process_update_frame[of _ p disk]
    process_add_added[of disk p] process_update_updated[of disk p]
  by blast

theorem codemods_write_only_when_needed_witness:
  "fst (process_add (disk_with plain_source) ''a.rs'') \<noteq> disk_with plain_source \<and>
   read_file (disk_with plain_source) ''a.rs'' = Inr plain_source \<and>
   contains ''serde_json::json!'' plain_source \<and>
   \<not> contains ''use serde_json::json;'' plain_source \<and>
   finditer 0 plain_source \<noteq> [] \<and>
   fst (process_update (disk_with mock_site) ''a.rs'') \<noteq> disk_with mock_site \<and>
   re_sub mock_site \<noteq> mock_site \<and>
   fst (process_add (disk_with plain_source) ''a.rs'') ''b.rs'' = disk_with plain_source ''b.rs''"
proof -
  have a: "fst (process_add (disk_with plain_source) ''a.rs'') \<noteq> disk_with plain_source"
    unfolding process_add_plain' by (simp add: disk_with_eq plain_imported_def plain_source_def)
  have u: "fst (process_update (disk_with mock_site) ''a.rs'') \<noteq> disk_with mock_site"
    by (simp add: process_update_disk_with re_sub_mock_ne disk_with_eq)
  from codemods_write_only_when_needed[of "disk_with plain_source" "''a.rs''"] a
  obtain c where c: "read_file (disk_with plain_source) ''a.rs'' = Inr c"
    "contains ''serde_json::json!'' c" "\<not> contains ''use serde_json::json;'' c" "finditer 0 c \<noteq> []"
    by blast
  from codemods_write_only_when_needed[of "disk_with mock_site" "''a.rs''"] u
  obtain d where d: "read_file (disk_with mock_site) ''a.rs'' = Inr d" "re_sub d \<noteq> d" by blast
  have "fst (process_add (disk_with plain_source) ''a.rs'') ''b.rs'' = disk_with plain_source ''b.rs''"
    using codemods_write_only_when_needed[of "disk_with plain_source" "''a.rs''"] by simp
  then show ?thesis using a u c d by (simp add: read_disk_with)
qed

text \<open>
  C5. In both scripts, when the turn for a path fails (\<open>open\<close>, \<open>f.read\<close> or \<open>f.write\<close>
  raises, as \<open>open\<close> does for a missing file), the line printed for that path is an error
  line naming it, the lines and the file system of the paths before it are those of the
  loop run on them alone, and the loop goes on over every path after it, one line for
  each, from the file system the failed turn found. A missing file, a failed read and a
  failed write each make the turn fail.
\<close>

theorem codemod_failure_reported_and_loop_continues:
  assumes "run_add disk before = (disk_a, lines_a)"
    and "run_update disk before = (disk_u, lines_u)"
  shows "(try_add disk_a p = Inl e \<longrightarrow>
            run_add disk (before @ p # rest) =
              (fst (run_add disk_a rest), lines_a @ ErrorProcessing p e # snd (run_add disk_a rest))) \<and>
         (try_update disk_u p = Inl e \<longrightarrow>
            run_update disk (before @ p # rest) =
              (fst (run_update disk_u rest), lines_u @ report_update p e # snd (run_update disk_u rest)) \<and>
            report_update p e = (if e = FileNotFoundError then FileNotFound p else ErrorProcessing p e)) \<and>
         length (snd (run_add disk_a rest)) = length rest \<and>
         length (snd (run_update disk_u rest)) = length rest \<and>
         (disk_a p = None \<longrightarrow> try_add disk_a p = Inl FileNotFoundError) \<and>
         (disk_u p = None \<longrightarrow> try_update disk_u p = Inl FileNotFoundError) \<and>
         (read_file disk_a p = Inl e \<longrightarrow> try_add disk_a p = Inl e) \<and>
         (read_file disk_u p = Inl e \<longrightarrow> try_update disk_u p = Inl e) \<and>
         (read_file disk_a p = Inr c \<and> \<not> contains ''use serde_json::json;'' c \<and>
          contains ''serde_json::json!'' c \<and> finditer 0 c \<noteq> [] \<and>
          write_file disk_a p (take (snd (last (finditer 0 c))) c @ ''use serde_json::json;\<newline>'' @
                               drop (snd (last (finditer 0 c))) c) = Inl e \<longrightarrow>
            try_add disk_a p = Inl e) \<and>
         (read_file disk_u p = Inr c \<and> re_sub c \<noteq> c \<and> write_file disk_u p (re_sub c) = Inl e \<longrightarrow>
            try_update disk_u p = Inl e)"
proof -
  have "report_update p e = (if e = FileNotFoundError then FileNotFound p else ErrorProcessing p e)"
    by (cases e) (simp_all add: report_update_def)
  moreover have "disk_a p = None \<longrightarrow> try_add disk_a p = Inl FileNotFoundError"
    by (simp add: try_add_cases read_file_def)
  moreover have "disk_u p = None \<longrightarrow> try_update disk_u p = Inl FileNotFoundError"
    by (simp add: try_update_cases read_file_def)
  moreover note run_add_failure[OF assms(1), of p e rest] run_update_failure[OF assms(2), of p e rest]
    length_run_add[of disk_a rest] length_run_update[of disk_u rest]
    try_add_read_fails[of disk_a p e] try_update_read_fails[of disk_u p e]
    try_add_write_fails[of disk_a p c e] try_update_write_fails[of disk_u p c e]
  ultimately show ?thesis by blast
qed

theorem codemod_failure_reported_and_loop_continues_witness:
  "run_add (disk_with plain_source) [''a.rs''] = (disk_with plain_imported, [AddedImport ''a.rs'']) \<and>
   run_update (disk_with plain_source) [''a.rs''] = (disk_with plain_source, [SkippedNoChange ''a.rs'']) \<and>
   try_add (disk_with plain_imported) ''missing.rs'' = Inl FileNotFoundError \<and>
   try_update (disk_with plain_source) ''missing.rs'' = Inl FileNotFoundError \<and>
   run_add (disk_with plain_source) [''a.rs'', ''missing.rs'', ''a.rs''] =
     (disk_with plain_imported,
      [AddedImport ''a.rs'', ErrorProcessing ''missing.rs'' FileNotFoundError, SkippedImport ''a.rs'']) \<and>
   run_update (disk_with plain_source) [''a.rs'', ''missing.rs'', ''a.rs''] =
     (disk_with plain_source,
      [SkippedNoChange ''a.rs'', FileNotFound ''missing.rs'', SkippedNoChange ''a.rs'']) \<and>
   try_add (locked_disk plain_source) ''a.rs'' = Inl PermissionError \<and>
   run_add (locked_disk plain_source) [''a.rs'', ''missing.rs''] =
     (locked_disk plain_source,
      [ErrorProcessing ''a.rs'' PermissionError, ErrorProcessing ''missing.rs'' FileNotFoundError]) \<and>
   try_update (locked_disk mock_site) ''a.rs'' = Inl PermissionError \<and>
   run_update (locked_disk mock_site) [''a.rs'', ''missing.rs''] =
     (locked_disk mock_site,
      [ErrorProcessing ''a.rs'' PermissionError, FileNotFound ''missing.rs''])"
proof -
  have ra: "run_add (disk_with plain_source) [''a.rs''] = (disk_with plain_imported, [AddedImport ''a.rs''])"
    by (simp add: process_add_plain')
  have ru: "run_update (disk_with plain_source) [''a.rs''] = (disk_with plain_source, [SkippedNoChange ''a.rs''])"
    by (simp add: process_update_disk_with re_sub_plain)
  have ra2: "run_add (disk_with plain_imported) [''a.rs''] = (disk_with plain_imported, [SkippedImport ''a.rs''])"
    by (simp add: process_add_skips_imported[OF read_disk_with contains_plain_imported])
  note t = codemod_failure_reported_and_loop_continues[OF ra ru, of "''missing.rs''" _ "[''a.rs'']"]
  have ta: "try_add (disk_with plain_imported) ''missing.rs'' = Inl FileNotFoundError"
    using t missing_disk_with by blast
  have tu: "try_update (disk_with plain_source) ''missing.rs'' = Inl FileNotFoundError"
    using t missing_disk_with by blast
  have "run_add (disk_with plain_source) ([''a.rs''] @ ''missing.rs'' # [''a.rs'']) =
          (fst (run_add (disk_with plain_imported) [''a.rs'']),
           [AddedImport ''a.rs''] @ ErrorProcessing ''missing.rs'' FileNotFoundError #
             snd (run_add (disk_with plain_imported) [''a.rs'']))"
    using t[of FileNotFoundError] ta by blast
  moreover have "run_update (disk_with plain_source) ([''a.rs''] @ ''missing.rs'' # [''a.rs'']) =
          (fst (run_update (disk_with plain_source) [''a.rs'']),
           [SkippedNoChange ''a.rs''] @ report_update ''missing.rs'' FileNotFoundError #
             snd (run_update (disk_with plain_source) [''a.rs'']))"
    and "report_update ''missing.rs'' FileNotFoundError = FileNotFound ''missing.rs''"
    using t[of FileNotFoundError] tu by auto
  ultimately have first: "run_add (disk_with plain_source) [''a.rs'', ''missing.rs'', ''a.rs''] =
     (disk_with plain_imported,
      [AddedImport ''a.rs'', ErrorProcessing ''missing.rs'' FileNotFoundError, SkippedImport ''a.rs''])"
    "run_update (disk_with plain_source) [''a.rs'', ''missing.rs'', ''a.rs''] =
     (disk_with plain_source,
      [SkippedNoChange ''a.rs'', FileNotFound ''missing.rs'', SkippedNoChange ''a.rs''])"
    using ra ru ra2 by (simp_all del: run_add.simps run_update.simps)
  have e: "run_add (locked_disk c) [] = (locked_disk c, [])"
    "run_update (locked_disk c) [] = (locked_disk c, [])" for c by simp_all
  have m: "locked_disk c ''missing.rs'' = None" for c by (simp add: locked_disk_def)
  have rm: "run_add (locked_disk plain_source) [''missing.rs''] =
              (locked_disk plain_source, [ErrorProcessing ''missing.rs'' FileNotFoundError])"
    "run_update (locked_disk mock_site) [''missing.rs''] =
              (locked_disk mock_site, [FileNotFound ''missing.rs''])"
    by (simp_all add: process_add_def process_update_def try_add_cases try_update_cases read_file_def m
        report_update_def)
  note la' = codemod_failure_reported_and_loop_continues[OF e(1) e(2), of plain_source "''a.rs''"
      PermissionError "[''missing.rs'']" plain_source]
  note lu' = codemod_failure_reported_and_loop_continues[OF e(1) e(2), of mock_site "''a.rs''"
      PermissionError "[''missing.rs'']" mock_site]
  have la: "try_add (locked_disk plain_source) ''a.rs'' = Inl PermissionError"
    using la' by (simp add: read_locked_disk write_locked_disk contains_plain finditer_plain)
  have lu: "try_update (locked_disk mock_site) ''a.rs'' = Inl PermissionError"
    using lu' by (simp add: read_locked_disk write_locked_disk re_sub_mock_ne)
  have "run_add (locked_disk plain_source) ([] @ ''a.rs'' # [''missing.rs'']) =
          (fst (run_add (locked_disk plain_source) [''missing.rs'']),
           [] @ ErrorProcessing ''a.rs'' PermissionError #
             snd (run_add (locked_disk plain_source) [''missing.rs'']))"
    using la' la by blast
  moreover have "run_update (locked_disk mock_site) ([] @ ''a.rs'' # [''missing.rs'']) =
          (fst (run_update (locked_disk mock_site) [''missing.rs'']),
           [] @ report_update ''a.rs'' PermissionError #
             snd (run_update (locked_disk mock_site) [''missing.rs'']))"
    and "report_update ''a.rs'' PermissionError = ErrorProcessing ''a.rs'' PermissionError"
    using lu' lu by auto
  ultimately have second: "run_add (locked_disk plain_source) [''a.rs'', ''missing.rs''] =
     (locked_disk plain_source,
      [ErrorProcessing ''a.rs'' PermissionError, ErrorProcessing ''missing.rs'' FileNotFoundError])"
    "run_update (locked_disk mock_site) [''a.rs'', ''missing.rs''] =
     (locked_disk mock_site,
      [ErrorProcessing ''a.rs'' PermissionError, FileNotFound ''missing.rs''])"
    using rm by (simp_all del: run_add.simps run_update.simps)
  show ?thesis using ra ru ta tu first la lu second by simp
qed




text \<open>
  C4 (amended). For every file read, add_json_imports tests whether
  \<open>use serde_json::json;\<close> is in the text and skips the write when it is.
  update_tool_registry_mocks has no test for the text it injects: it skips the write
  when the substitution returns the text unchanged, and writes the result otherwise.
\<close>

theorem presence_check_only_in_add:
  assumes "read_file disk p = Inr c"
  shows "(contains ''use serde_json::json;'' c \<longrightarrow> process_add disk p = (disk, SkippedImport p)) \<and>
         (re_sub c = c \<longrightarrow> process_update disk p = (disk, SkippedNoChange p)) \<and>
         (re_sub c \<noteq> c \<longrightarrow>
            process_update disk p =
              (case write_file disk p (re_sub c) of
                 Inl e \<Rightarrow> (disk, report_update p e)
               | Inr disk' \<Rightarrow> (disk', Updated p)))"
  using assms process_add_skips_imported[of disk p c]
  by (auto simp: process_update_def try_update_cases split: sum.splits)

theorem presence_check_only_in_add_witness:
  "read_file (disk_with imported_source) ''a.rs'' = Inr imported_source \<and>
   contains ''use serde_json::json;'' imported_source \<and>
   process_add (disk_with imported_source) ''a.rs'' = (disk_with imported_source, SkippedImport ''a.rs'') \<and>
   re_sub imported_source = imported_source \<and>
   process_update (disk_with imported_source) ''a.rs'' = (disk_with imported_source, SkippedNoChange ''a.rs'') \<and>
   read_file (disk_with mock_site) ''a.rs'' = Inr mock_site \<and>
   re_sub mock_site \<noteq> mock_site \<and>
   process_update (disk_with mock_site) ''a.rs'' = (disk_with (re_sub mock_site), Updated ''a.rs'')"
proof -
  have "lit_free imported_source" by (simp add: imported_source_def)
  from re_sub_lit_free[OF this, of "[]"] have r: "re_sub imported_source = imported_source" by simp
  show ?thesis
    using r read_disk_with[of imported_source] read_disk_with[of mock_site] contains_imported re_sub_mock_ne
      presence_check_only_in_add[of "disk_with imported_source" "''a.rs''" imported_source]
      presence_check_only_in_add[of "disk_with mock_site" "''a.rs''" mock_site]
    by (simp add: write_disk_with)
qed

text \<open>
  A file that holds the method to inject, after a \<open>get_active_tools\<close> that closes its
  block, is written all the same.
\<close>

theorem update_writes_with_method_present:
  "read_file (disk_with site_then_method) ''a.rs'' = Inr site_then_method \<and>
   contains TOOL_SCHEMA_METHOD site_then_method \<and>
   process_update (disk_with site_then_method) ''a.rs'' =
     (disk_with (''fn get_active_tools(&self) {}\<newline>'' @ TOOL_SCHEMA_METHOD @ ''\<newline>}'' @ TOOL_SCHEMA_METHOD),
      Updated ''a.rs'')"
proof -
  have c: "contains TOOL_SCHEMA_METHOD site_then_method"
    unfolding site_then_method_def using contains_middle[of TOOL_SCHEMA_METHOD mock_site "[]"] by simp
  have "length (re_sub site_then_method) \<noteq> length site_then_method"
    unfolding re_sub_site_then_method by (simp add: site_then_method_def mock_site_def)
  then have ne: "re_sub site_then_method \<noteq> site_then_method" by auto
  then show ?thesis using c
    by (simp add: process_update_disk_with read_disk_with re_sub_site_then_method)
qed

end
